theory Spec2Isabelle
  imports Main "HOL-Library.AList" "HOL-Library.Multiset" "HOL-Library.Product_Lexorder"
begin

section \<open>Data model of equalizer.py\<close>

text \<open>
  The script works on the objects of the Kubernetes client. Only the attributes that
  the planner reads are kept. Attributes that the client may leave unset are options:
  \<open>pod.spec.priority\<close>, \<open>pod.status.start_time\<close>, \<open>pod.status.phase\<close>,
  \<open>pod.metadata.owner_references\<close> and \<open>pod.metadata.annotations\<close>.
\<close>

text \<open>Python exceptions that the modelled functions can raise.\<close>

datatype error = ZeroDivisionError | KeyError string | IndexError

text \<open>The class name of each exception, as Python prints it.\<close>

fun exception_name :: "error \<Rightarrow> string" where
  "exception_name ZeroDivisionError = ''ZeroDivisionError''"
| "exception_name (KeyError k) = ''KeyError''"
| "exception_name IndexError = ''IndexError''"

record owner_reference =
  kind :: string

text \<open>
  A \<open>datetime\<close>: the date and time fields, counted in seconds from
  1970-01-01T00:00:00 as they are written, and the UTC offset of its \<open>tzinfo\<close>
  (\<open>None\<close> for a naive datetime).
\<close>

record datetime =
  wall_clock :: int
  tzinfo :: "int option"

record pod =
  namespace :: string
  name :: string
  priority :: "int option"
  start_time :: "datetime option"
  phase :: "string option"
  owner_references :: "owner_reference list option"
  annotations :: "(string \<times> string) list option"

text \<open>
  A Python \<open>dict\<close> with string keys whose insertion order is kept: an association list
  with distinct keys, read with \<^const>\<open>map_of\<close> and written with \<^const>\<open>AList.update\<close>
  (which overwrites in place or appends).
\<close>

type_synonym 'v dict = "(string \<times> 'v) list"

text \<open>\<open>d[k]\<close>\<close>

definition dict_index :: "'v dict \<Rightarrow> string \<Rightarrow> error + 'v" where
  "dict_index d k = (case map_of d k of None \<Rightarrow> Inl (KeyError k) | Some v \<Rightarrow> Inr v)"

text \<open>\<open>{k: f(k) for k in ks}\<close>\<close>

definition dict_comp :: "(string \<Rightarrow> 'v) \<Rightarrow> string list \<Rightarrow> 'v dict" where
  "dict_comp f ks = foldl (\<lambda>d k. AList.update k (f k) d) [] ks"

text \<open>\<open>pods_by_node.get(node, ())\<close>\<close>

definition pods_on :: "(string \<rightharpoonup> pod list) \<Rightarrow> string \<Rightarrow> pod list" where
  "pods_on pods_by_node node = (case pods_by_node node of None \<Rightarrow> [] | Some ps \<Rightarrow> ps)"

text \<open>
  \<open>sorted(xs, key=..., reverse=...)\<close>: a stable sort; with \<open>reverse=True\<close> Python reverses
  the list, sorts it and reverses the result, so that equal keys keep their input order.
\<close>

definition sorted_py :: "('a \<Rightarrow> 'k::linorder) \<Rightarrow> bool \<Rightarrow> 'a list \<Rightarrow> 'a list" where
  "sorted_py key reverse xs =
     (if reverse then rev (sort_key key (rev xs)) else sort_key key xs)"

text \<open>The keys of a sort are computed first, one call per element, in input order.\<close>

fun decorate :: "('a \<Rightarrow> error + 'k) \<Rightarrow> 'a list \<Rightarrow> error + ('k \<times> 'a) list" where
  "decorate key [] = Inr []"
| "decorate key (x # xs) =
     (case key x of
        Inl e \<Rightarrow> Inl e
      | Inr k \<Rightarrow> (case decorate key xs of Inl e \<Rightarrow> Inl e | Inr kxs \<Rightarrow> Inr ((k, x) # kxs)))"

section \<open>compute\_targets\<close>

text \<open>\<open>for idx in range(extra): targets[ranked_nodes[idx]] += 1\<close>\<close>

fun bump_targets :: "string list \<Rightarrow> nat list \<Rightarrow> int dict \<Rightarrow> error + int dict" where
  "bump_targets ranked_nodes [] targets = Inr targets"
| "bump_targets ranked_nodes (idx # idxs) targets =
     (if idx < length ranked_nodes then
        (case dict_index targets (ranked_nodes ! idx) of
           Inl e \<Rightarrow> Inl e
         | Inr t \<Rightarrow>
             bump_targets ranked_nodes idxs (AList.update (ranked_nodes ! idx) (t + 1) targets))
      else Inl IndexError)"

definition node_counts :: "string list \<Rightarrow> (string \<rightharpoonup> pod list) \<Rightarrow> int dict" where
  "node_counts nodes pods_by_node =
     dict_comp (\<lambda>node. int (length (pods_on pods_by_node node))) nodes"

definition rank_nodes :: "string list \<Rightarrow> int dict \<Rightarrow> error + string list" where
  "rank_nodes nodes counts =
     (case decorate (\<lambda>name. dict_index counts name) nodes of
        Inl e \<Rightarrow> Inl e
      | Inr keyed \<Rightarrow> Inr (map snd (sorted_py fst True keyed)))"

definition compute_targets :: "string list \<Rightarrow> (string \<rightharpoonup> pod list) \<Rightarrow> error + int dict" where
  "compute_targets nodes pods_by_node =
     (let counts = node_counts nodes pods_by_node;
          total = sum_list (map snd counts)
      in if length nodes = 0 then Inl ZeroDivisionError
         else
           let per_node = total div int (length nodes);
               extra = total mod int (length nodes)
           in case rank_nodes nodes counts of
                Inl e \<Rightarrow> Inl e
              | Inr ranked_nodes \<Rightarrow>
                  bump_targets ranked_nodes [0..<nat extra] (dict_comp (\<lambda>node. per_node) nodes))"

text \<open>\<open>total\<close>, the sum of the values of \<open>counts\<close>, and \<open>len(pods_by_node.get(node, ()))\<close>.\<close>

definition total_pods :: "string list \<Rightarrow> (string \<rightharpoonup> pod list) \<Rightarrow> int" where
  "total_pods nodes pods_by_node = sum_list (map snd (node_counts nodes pods_by_node))"

definition pod_count :: "(string \<rightharpoonup> pod list) \<Rightarrow> string \<Rightarrow> int" where
  "pod_count pods_by_node node = int (length (pods_on pods_by_node node))"

section \<open>Evictability and eviction order\<close>

text \<open>The loop of \<open>_is_managed_by_daemonset\<close> over the owner references.\<close>

fun daemonset_among :: "owner_reference list \<Rightarrow> bool" where
  "daemonset_among [] = False"
| "daemonset_among (owner # owners) =
     (if kind owner = ''DaemonSet'' then True else daemonset_among owners)"

text \<open>\<open>pod.metadata.owner_references or []\<close>\<close>

definition owners_of :: "pod \<Rightarrow> owner_reference list" where
  "owners_of pod = (case owner_references pod of None \<Rightarrow> [] | Some owners \<Rightarrow> owners)"

definition is_managed_by_daemonset :: "pod \<Rightarrow> bool" where
  "is_managed_by_daemonset pod = daemonset_among (owners_of pod)"

text \<open>The truth value of \<open>annotations.get(key)\<close>: a missing key and an empty string are false.\<close>

definition truthy :: "string option \<Rightarrow> bool" where
  "truthy v = (case v of None \<Rightarrow> False | Some s \<Rightarrow> s \<noteq> [])"

definition annotation :: "pod \<Rightarrow> string \<Rightarrow> string option" where
  "annotation pod key = map_of (case annotations pod of None \<Rightarrow> [] | Some a \<Rightarrow> a) key"

definition is_evictable :: "pod \<Rightarrow> bool" where
  "is_evictable pod =
     (if truthy (annotation pod ''kubernetes.io/config.mirror'') then False
      else if annotation pod ''cluster-autoscaler.kubernetes.io/safe-to-evict'' = Some ''false''
        then False
      else if is_managed_by_daemonset pod then False
      else if phase pod \<notin> {Some ''Pending'', Some ''Running''} then False
      else True)"

text \<open>
  The second component of the sort key is a float: a timestamp in whole seconds, which a
  float holds exactly, or an infinity.
\<close>

datatype pyfloat = MinusInf | Float int | PlusInf

fun float_rank :: "pyfloat \<Rightarrow> int \<times> int" where
  "float_rank MinusInf = (0, 0)"
| "float_rank (Float x) = (1, x)"
| "float_rank PlusInf = (2, 0)"

instantiation pyfloat :: linorder
begin

definition less_eq_pyfloat :: "pyfloat \<Rightarrow> pyfloat \<Rightarrow> bool" where
  "less_eq_pyfloat x y = (float_rank x \<le> float_rank y)"

definition less_pyfloat :: "pyfloat \<Rightarrow> pyfloat \<Rightarrow> bool" where
  "less_pyfloat x y = (float_rank x < float_rank y)"

instance
proof
  fix x y z :: pyfloat
  show "(x < y) = (x \<le> y \<and> \<not> y \<le> x)"
    by (auto simp: less_eq_pyfloat_def less_pyfloat_def)
  show "x \<le> x" by (simp add: less_eq_pyfloat_def)
  show "x \<le> y \<Longrightarrow> y \<le> z \<Longrightarrow> x \<le> z"
    by (simp add: less_eq_pyfloat_def)
  show "x \<le> y \<Longrightarrow> y \<le> x \<Longrightarrow> x = y"
    by (cases x; cases y) (auto simp: less_eq_pyfloat_def)
  show "x \<le> y \<or> y \<le> x"
    by (auto simp: less_eq_pyfloat_def)
qed

end

text \<open>Unary minus on these floats.\<close>

fun neg_float :: "pyfloat \<Rightarrow> pyfloat" where
  "neg_float MinusInf = PlusInf"
| "neg_float (Float x) = Float (- x)"
| "neg_float PlusInf = MinusInf"

text \<open>
  \<open>datetime.timestamp()\<close> of an aware datetime: the fields minus the UTC offset.
  \<open>_pod_sort_key\<close> calls it only after a naive datetime was given the zone UTC.
\<close>

definition timestamp :: "datetime \<Rightarrow> int" where
  "timestamp dt = wall_clock dt - (case tzinfo dt of None \<Rightarrow> 0 | Some offset \<Rightarrow> offset)"

definition start_ts :: "pod \<Rightarrow> pyfloat" where
  "start_ts pod =
     (case start_time pod of
        None \<Rightarrow> PlusInf
      | Some st \<Rightarrow>
          Float (timestamp (if tzinfo st = None then st\<lparr>tzinfo := Some 0\<rparr> else st)))"

definition effective_priority :: "pod \<Rightarrow> int" where
  "effective_priority pod = (case priority pod of None \<Rightarrow> 0 | Some p \<Rightarrow> p)"

definition pod_sort_key :: "pod \<Rightarrow> int \<times> pyfloat" where
  "pod_sort_key pod = (effective_priority pod, neg_float (start_ts pod))"

text \<open>The sorted list of evictable pods that \<open>plan_evictions\<close> builds for a node.\<close>

definition candidates_of :: "pod list \<Rightarrow> pod list" where
  "candidates_of pods = sorted_py pod_sort_key False (filter is_evictable pods)"

section \<open>plan\_evictions\<close>

text \<open>What the script prints on stderr, with the values that each message carries.\<close>

datatype message =
    ShortageWarning string int int int
  | CapReachedWarning
  | EvictionError string string string

text \<open>\<open>candidates[idx] for idx in range(overload)\<close>\<close>

fun get_items :: "'a list \<Rightarrow> nat list \<Rightarrow> error + 'a list" where
  "get_items xs [] = Inr []"
| "get_items xs (idx # idxs) =
     (if idx < length xs then
        (case get_items xs idxs of Inl e \<Rightarrow> Inl e | Inr ys \<Rightarrow> Inr (xs ! idx # ys))
      else Inl IndexError)"

text \<open>One iteration of the loop over the nodes: the messages printed and the plan entries added.\<close>

definition plan_node ::
  "(string \<rightharpoonup> pod list) \<Rightarrow> int dict \<Rightarrow> string \<Rightarrow> message list \<times> (error + (string \<times> pod) list)"
where
  "plan_node pods_by_node targets node =
     (case dict_index targets node of
        Inl e \<Rightarrow> ([], Inl e)
      | Inr target \<Rightarrow>
          let overload = int (length (pods_on pods_by_node node)) - target
          in if overload \<le> 0 then ([], Inr [])
             else
               let candidates = candidates_of (pods_on pods_by_node node);
                   short = int (length candidates) < overload;
                   shortage = overload - int (length candidates);
                   printed =
                     (if short
                      then [ShortageWarning node overload (int (length candidates)) shortage]
                      else []);
                   overload = (if short then int (length candidates) else overload)
               in (printed,
                   case get_items candidates [0..<nat overload] of
                     Inl e \<Rightarrow> Inl e
                   | Inr chosen \<Rightarrow> Inr (map (Pair node) chosen)))"

fun plan_loop ::
  "(string \<rightharpoonup> pod list) \<Rightarrow> int dict \<Rightarrow> string list \<Rightarrow> message list \<Rightarrow> (string \<times> pod) list
     \<Rightarrow> message list \<times> (error + (string \<times> pod) list)"
where
  "plan_loop pods_by_node targets [] printed plan = (printed, Inr plan)"
| "plan_loop pods_by_node targets (node # rest) printed plan =
     (case plan_node pods_by_node targets node of
        (msgs, Inl e) \<Rightarrow> (printed @ msgs, Inl e)
      | (msgs, Inr entries) \<Rightarrow>
          plan_loop pods_by_node targets rest (printed @ msgs) (plan @ entries))"

definition plan_evictions ::
  "string list \<Rightarrow> (string \<rightharpoonup> pod list) \<Rightarrow> int dict \<Rightarrow> message list \<times> (error + (string \<times> pod) list)"
where
  "plan_evictions nodes pods_by_node targets = plan_loop pods_by_node targets nodes [] []"

section \<open>execute\_plan\<close>

text \<open>
  The body built by \<open>create_eviction_body\<close> and the call
  \<open>create_namespaced_pod_eviction(name, namespace, body)\<close>.
\<close>

record eviction =
  ev_name :: string
  ev_namespace :: string
  grace_period_seconds :: "int option"

record eviction_call =
  call_name :: string
  call_namespace :: string
  call_body :: eviction

text \<open>
  The eviction API is outside the script. A call returns, or raises the \<open>ApiException\<close>
  that \<open>execute_plan\<close> catches, or raises any other exception (the server cannot be
  reached, say), which \<open>execute_plan\<close> does not catch. Its answer may depend on the call
  and on all calls made before, so the API is a function of that history.
\<close>

datatype api_result = Evicted | ApiException string | Raised string

type_synonym eviction_api = "(eviction_call \<times> api_result) list \<Rightarrow> eviction_call \<Rightarrow> api_result"

definition create_eviction_body :: "pod \<Rightarrow> int option \<Rightarrow> eviction" where
  "create_eviction_body pod grace_period =
     \<lparr>ev_name = name pod, ev_namespace = namespace pod, grace_period_seconds = grace_period\<rparr>"

definition eviction_call_of :: "int option \<Rightarrow> pod \<Rightarrow> eviction_call" where
  "eviction_call_of grace_period pod =
     \<lparr>call_name = name pod, call_namespace = namespace pod,
      call_body = create_eviction_body pod grace_period\<rparr>"

text \<open>
  The state of a run: the counter \<open>performed\<close>, the calls made so far with their results,
  the messages printed on stderr, and the exception that left \<open>execute_plan\<close> uncaught, if
  any. \<open>execute_plan\<close> returns \<open>performed\<close> when \<open>uncaught\<close> is \<open>None\<close>; otherwise the
  exception propagates and nothing is returned.
\<close>

record run =
  performed :: int
  calls :: "(eviction_call \<times> api_result) list"
  printed :: "message list"
  uncaught :: "string option"

fun execute_loop ::
  "eviction_api \<Rightarrow> bool \<Rightarrow> int option \<Rightarrow> int option \<Rightarrow> (string \<times> pod) list \<Rightarrow> run \<Rightarrow> run"
where
  "execute_loop api dry_run grace_period max_evictions [] st = st"
| "execute_loop api dry_run grace_period max_evictions ((node, pod) # rest) st =
     (if (case max_evictions of None \<Rightarrow> False | Some m \<Rightarrow> performed st \<ge> m)
      then st\<lparr>printed := printed st @ [CapReachedWarning]\<rparr>
      else if dry_run then execute_loop api dry_run grace_period max_evictions rest st
      else
        let call = eviction_call_of grace_period pod
        in case api (calls st) call of
             Evicted \<Rightarrow>
               execute_loop api dry_run grace_period max_evictions rest
                 (st\<lparr>performed := performed st + 1, calls := calls st @ [(call, Evicted)]\<rparr>)
           | ApiException exc \<Rightarrow>
               execute_loop api dry_run grace_period max_evictions rest
                 (st\<lparr>calls := calls st @ [(call, ApiException exc)],
                     printed := printed st @ [EvictionError (namespace pod) (name pod) exc]\<rparr>)
           | Raised exc \<Rightarrow>
               st\<lparr>calls := calls st @ [(call, Raised exc)], uncaught := Some exc\<rparr>)"

definition execute_plan ::
  "(string \<times> pod) list \<Rightarrow> eviction_api \<Rightarrow> bool \<Rightarrow> int option \<Rightarrow> int option \<Rightarrow> run"
where
  "execute_plan plan api dry_run grace_period max_evictions =
     (if plan = [] then \<lparr>performed = 0, calls = [], printed = [], uncaught = None\<rparr>
      else execute_loop api dry_run grace_period max_evictions plan
             \<lparr>performed = 0, calls = [], printed = [], uncaught = None\<rparr>)"

section \<open>Closed forms\<close>

text \<open>
  What one iteration of \<open>plan_evictions\<close> adds for a node with a given target, and what
  a list of calls with their results says: the number of successes and the errors printed.
  \<open>fresh_run\<close> is the state in which \<open>execute_plan\<close> starts.
\<close>

definition entries_for :: "(string \<rightharpoonup> pod list) \<Rightarrow> int \<Rightarrow> string \<Rightarrow> (string \<times> pod) list" where
  "entries_for pods_by_node target node =
     map (Pair node)
       (take (nat (pod_count pods_by_node node - target)) (candidates_of (pods_on pods_by_node node)))"

definition shortage_for :: "(string \<rightharpoonup> pod list) \<Rightarrow> int \<Rightarrow> string \<Rightarrow> message list" where
  "shortage_for pods_by_node target node =
     (let overload = pod_count pods_by_node node - target;
          available = int (length (candidates_of (pods_on pods_by_node node)))
      in if available < overload
         then [ShortageWarning node overload available (overload - available)] else [])"

definition successes :: "(eviction_call \<times> api_result) list \<Rightarrow> nat" where
  "successes cs = length (filter (\<lambda>c. snd c = Evicted) cs)"

fun errors_of :: "(eviction_call \<times> api_result) list \<Rightarrow> message list" where
  "errors_of [] = []"
| "errors_of ((call, Evicted) # cs) = errors_of cs"
| "errors_of ((call, ApiException exc) # cs) =
     EvictionError (call_namespace call) (call_name call) exc # errors_of cs"
| "errors_of ((call, Raised exc) # cs) = errors_of cs"

definition fresh_run :: run where
  "fresh_run = \<lparr>performed = 0, calls = [], printed = [], uncaught = None\<rparr>"

section \<open>Sample inputs\<close>

definition sample_pod :: pod where
  "sample_pod = \<lparr>namespace = ''default'', name = ''web'', priority = None, start_time = None,
     phase = Some ''Running'', owner_references = None, annotations = None\<rparr>"


definition skewed_pods :: "string \<rightharpoonup> pod list" where
  "skewed_pods = [''a'' \<mapsto> [sample_pod, sample_pod], ''c'' \<mapsto> [sample_pod, sample_pod]]"

definition running_pod :: "string \<Rightarrow> int option \<Rightarrow> datetime option \<Rightarrow> pod" where
  "running_pod n prio started =
     \<lparr>namespace = ''default'', name = n, priority = prio, start_time = started,
      phase = Some ''Running'', owner_references = None, annotations = None\<rparr>"

definition noon :: datetime where
  "noon = \<lparr>wall_clock = 1700000000, tzinfo = Some 0\<rparr>"

definition later :: datetime where
  "later = \<lparr>wall_clock = 1700003600, tzinfo = None\<rparr>"

definition empty_mirror_pod :: pod where
  "empty_mirror_pod = (running_pod ''static'' None None)
     \<lparr>annotations := Some [(''kubernetes.io/config.mirror'', [])]\<rparr>"

definition daemon_pod :: pod where
  "daemon_pod = (running_pod ''agent'' None None)
     \<lparr>owner_references := Some [\<lparr>kind = ''DaemonSet''\<rparr>]\<rparr>"

definition priority_pods :: "pod list" where
  "priority_pods =
     [running_pod ''p3'' (Some 3) (Some noon), running_pod ''p1'' (Some 1) (Some noon),
      running_pod ''p2'' (Some 2) (Some noon)]"

definition age_pods :: "pod list" where
  "age_pods = [running_pod ''old'' None (Some noon), running_pod ''new'' None (Some later)]"

definition unstarted_pods :: "pod list" where
  "unstarted_pods = [running_pod ''old'' None (Some noon), running_pod ''unstarted'' None None]"

definition always_evicted :: eviction_api where
  "always_evicted history call = Evicted"

definition flaky_api :: eviction_api where
  "flaky_api history call =
     (if call_name call = ''p2'' then ApiException ''conflict'' else Evicted)"


definition three_plan :: "(string \<times> pod) list" where
  "three_plan =
     [(''a'', running_pod ''p1'' None None), (''a'', running_pod ''p2'' None None),
      (''b'', running_pod ''p3'' None None)]"

definition retry_plan :: "(string \<times> pod) list" where
  "retry_plan =
     [(''a'', running_pod ''p2'' None None), (''a'', running_pod ''p1'' None None),
      (''b'', running_pod ''p3'' None None)]"

definition short_pods :: "string \<rightharpoonup> pod list" where
  "short_pods = [''a'' \<mapsto> [sample_pod, daemon_pod, daemon_pod]]"

definition two_targets :: "int dict" where
  "two_targets = [(''a'', 1), (''b'', 0)]"

section \<open>Dictionaries and sorting\<close>

lemma update_fresh: "k \<notin> fst ` set al \<Longrightarrow> AList.update k v al = al @ [(k, v)]"
  by (induction al) auto

lemma map_of_dict_comp:
  "map_of (dict_comp f ks) k = (if k \<in> set ks then Some (f k) else None)"
proof -
  have "map_of (foldl (\<lambda>d k. AList.update k (f k) d) d0 ks) k
        = (if k \<in> set ks then Some (f k) else map_of d0 k)" for d0
    by (induction ks arbitrary: d0) (auto simp: update_conv')
  then show ?thesis by (simp add: dict_comp_def)
qed

lemma dict_comp_distinct:
  "distinct ks \<Longrightarrow> dict_comp f ks = map (\<lambda>k. (k, f k)) ks"
proof (induction ks rule: rev_induct)
  case Nil
  then show ?case by (simp add: dict_comp_def)
next
  case (snoc k ks)
  then have "dict_comp f ks = map (\<lambda>k. (k, f k)) ks" and "k \<notin> set ks" by auto
  then show ?case
    using update_fresh [of k "map (\<lambda>k. (k, f k)) ks" "f k"]
    by (simp add: dict_comp_def image_image)
qed

lemma keys_dict_comp: "fst ` set (dict_comp f ks) = set ks"
proof -
  have "fst ` set (foldl (\<lambda>d k. AList.update k (f k) d) d0 ks) = fst ` set d0 \<union> set ks" for d0
    by (induction ks arbitrary: d0) (auto simp: dom_update)
  then show ?thesis by (simp add: dict_comp_def)
qed

lemma decorate_total:
  "\<forall>x\<in>set xs. key x = Inr (k x) \<Longrightarrow> decorate key xs = Inr (map (\<lambda>x. (k x, x)) xs)"
  by (induction xs) auto

lemma insort_key_decorated:
  "insort_key fst (k x, x) (map (\<lambda>x. (k x, x)) xs) = map (\<lambda>x. (k x, x)) (insort_key k x xs)"
  by (induction xs) auto

lemma sort_key_decorated:
  "sort_key fst (map (\<lambda>x. (k x, x)) xs) = map (\<lambda>x. (k x, x)) (sort_key k xs)"
  by (induction xs) (auto simp: insort_key_decorated)

lemma sorted_py_decorated:
  "map snd (sorted_py fst r (map (\<lambda>x. (k x, x)) xs)) = sorted_py k r xs"
  by (simp add: sorted_py_def rev_map sort_key_decorated o_def)

lemma rank_nodes_counts:
  "rank_nodes nodes (node_counts nodes pbn) = Inr (sorted_py (pod_count pbn) True nodes)"
proof -
  have "\<forall>x\<in>set nodes. dict_index (node_counts nodes pbn) x = Inr (pod_count pbn x)"
    by (simp add: dict_index_def node_counts_def map_of_dict_comp pod_count_def)
  then have "decorate (\<lambda>name. dict_index (node_counts nodes pbn) name) nodes
             = Inr (map (\<lambda>x. (pod_count pbn x, x)) nodes)"
    by (rule decorate_total)
  then show ?thesis
    by (simp add: rank_nodes_def sorted_py_decorated)
qed

lemma bump_targets_ok:
  assumes "\<forall>i\<in>set idxs. i < length ranked" and "set ranked \<subseteq> fst ` set targets"
  shows "\<exists>t'. bump_targets ranked idxs targets = Inr t' \<and> map fst t' = map fst targets \<and>
           (\<forall>n. map_of t' n =
                map_option (\<lambda>t. t + int (count_list (map ((!) ranked) idxs) n)) (map_of targets n))"
  using assms
proof (induction idxs arbitrary: targets)
  case Nil
  then show ?case by (simp add: option.map_ident)
next
  case (Cons idx idxs)
  let ?k = "ranked ! idx"
  from Cons.prems have idx: "idx < length ranked" by simp
  with Cons.prems have "?k \<in> fst ` set targets" by (meson nth_mem subsetD)
  then obtain t where t: "map_of targets ?k = Some t"
    by (metis domD dom_map_of_conv_image_fst)
  let ?targets = "AList.update ?k (t + 1) targets"
  have keys: "map fst ?targets = map fst targets"
    using \<open>?k \<in> fst ` set targets\<close> by (simp add: update_keys)
  then have "set ranked \<subseteq> fst ` set ?targets"
    using Cons.prems(2) by (metis list.set_map)
  with Cons.IH [of ?targets] Cons.prems(1)
  obtain t' where t': "bump_targets ranked idxs ?targets = Inr t'"
    "map fst t' = map fst ?targets"
    "\<forall>n. map_of t' n =
         map_option (\<lambda>t. t + int (count_list (map ((!) ranked) idxs) n)) (map_of ?targets n)"
    by auto
  have "bump_targets ranked (idx # idxs) targets = Inr t'"
    using idx t t'(1) by (simp add: dict_index_def)
  moreover have "map fst t' = map fst targets" using t'(2) keys by simp
  moreover have "map_of t' n =
       map_option (\<lambda>t. t + int (count_list (map ((!) ranked) (idx # idxs)) n)) (map_of targets n)" for n
    using t'(3) t by (auto simp: update_conv')
  ultimately show ?case by blast
qed

lemma map_nth_upt_take: "e \<le> length xs \<Longrightarrow> map ((!) xs) [0..<e] = take e xs"
  by (simp add: list_eq_iff_nth_eq)


lemma sorted_py_mset: "mset (sorted_py k r xs) = mset xs"
  by (simp add: sorted_py_def)

lemma sorted_py_set: "set (sorted_py k r xs) = set xs"
  by (simp add: sorted_py_def)

lemma sorted_py_length: "length (sorted_py k r xs) = length xs"
  by (simp add: sorted_py_def)


lemma sorted_py_stable: "filter (\<lambda>y. k y = c) (sorted_py k r xs) = filter (\<lambda>y. k y = c) xs"
proof (cases r)
  case True
  have "filter (\<lambda>y. k y = c) (rev (sort_key k (rev xs)))
        = rev (filter (\<lambda>y. k y = c) (sort_key k (rev xs)))"
    by (rule rev_filter [symmetric])
  also have "\<dots> = rev (filter (\<lambda>y. k y = c) (rev xs))"
    by (simp only: sort_key_stable)
  also have "\<dots> = filter (\<lambda>y. k y = c) xs"
    by (simp only: rev_filter rev_rev_ident)
  finally show ?thesis using True by (simp only: sorted_py_def if_True)
next
  case False
  then show ?thesis by (simp add: sorted_py_def sort_key_stable)
qed

lemma sorted_py_ascending: "sorted (map k (sorted_py k False xs))"
  by (simp add: sorted_py_def)

lemma sorted_py_descending: "sorted_wrt (\<lambda>a b. k b \<le> k a) (sorted_py k True xs)"
proof -
  have "sorted (map k (sort_key k (rev xs)))" by simp
  then have "sorted_wrt (\<lambda>a b. k a \<le> k b) (sort_key k (rev xs))"
    by (simp add: sorted_map)
  then show ?thesis
    by (simp add: sorted_py_def sorted_wrt_rev)
qed





lemma total_pods_distinct:
  "distinct nodes \<Longrightarrow> total_pods nodes pbn = (\<Sum>node\<leftarrow>nodes. pod_count pbn node)"
  by (simp add: total_pods_def node_counts_def dict_comp_distinct o_def pod_count_def)




lemma compute_targets_unfold:
  assumes "nodes \<noteq> []"
  shows "\<exists>targets. compute_targets nodes pbn = Inr targets \<and>
           map fst targets = map fst (dict_comp (\<lambda>node. total_pods nodes pbn div int (length nodes)) nodes) \<and>
           (\<forall>n\<in>set nodes. map_of targets n =
              Some (total_pods nodes pbn div int (length nodes)
                    + int (count_list (take (nat (total_pods nodes pbn mod int (length nodes)))
                                            (sorted_py (pod_count pbn) True nodes)) n)))"
proof -
  let ?total = "total_pods nodes pbn"
  let ?len = "int (length nodes)"
  let ?ranked = "sorted_py (pod_count pbn) True nodes"
  let ?base = "dict_comp (\<lambda>node. ?total div ?len) nodes"
  let ?e = "nat (?total mod ?len)"
  from assms have len: "0 < ?len" by simp
  then have "?total mod ?len < ?len" by (rule pos_mod_bound)
  then have e: "?e \<le> length ?ranked" by (simp add: sorted_py_length)
  then have idx: "\<forall>i\<in>set [0..<?e]. i < length ?ranked" by simp
  have keys: "set ?ranked \<subseteq> fst ` set ?base"
    by (simp add: sorted_py_set keys_dict_comp)
  from bump_targets_ok [OF idx keys]
  obtain t' where t': "bump_targets ?ranked [0..<?e] ?base = Inr t'"
    "map fst t' = map fst ?base"
    "\<forall>n. map_of t' n =
         map_option (\<lambda>t. t + int (count_list (map ((!) ?ranked) [0..<?e]) n)) (map_of ?base n)"
    by blast
  have "compute_targets nodes pbn = Inr t'"
    using assms t'(1)
    by (simp add: compute_targets_def Let_def rank_nodes_counts total_pods_def)
  moreover have "map_of t' n = Some (?total div ?len + int (count_list (take ?e ?ranked) n))"
    if "n \<in> set nodes" for n
    using t'(3) that by (simp add: map_of_dict_comp map_nth_upt_take [OF e])
  ultimately show ?thesis using t'(2) by blast
qed

section \<open>Properties of compute\_targets\<close>




text \<open>
  C8. \<open>compute_targets\<close> ranks the nodes by a stable descending sort on their pod
  counts: the ranking is a permutation of the input, its counts never increase, and nodes
  with the same count keep their input order. With \<open>extra = total mod len(nodes)\<close>, the
  first \<open>extra\<close> entries of the ranking receive one unit each on top of
  \<open>total div len(nodes)\<close>, and no other node receives any.
\<close>

theorem compute_targets_remainder:
  assumes "nodes \<noteq> []"
  shows "\<exists>targets ranked_nodes.
           compute_targets nodes pods_by_node = Inr targets \<and>
           rank_nodes nodes (node_counts nodes pods_by_node) = Inr ranked_nodes \<and>
           mset ranked_nodes = mset nodes \<and>
           sorted_wrt (\<lambda>a b. pod_count pods_by_node b \<le> pod_count pods_by_node a) ranked_nodes \<and>
           (\<forall>c. filter (\<lambda>n. pod_count pods_by_node n = c) ranked_nodes
                = filter (\<lambda>n. pod_count pods_by_node n = c) nodes) \<and>
           (\<forall>node\<in>set nodes.
              map_of targets node =
                Some (total_pods nodes pods_by_node div int (length nodes)
                      + int (count_list
                          (take (nat (total_pods nodes pods_by_node mod int (length nodes)))
                             ranked_nodes) node))) \<and>
           length (take (nat (total_pods nodes pods_by_node mod int (length nodes))) ranked_nodes)
             = nat (total_pods nodes pods_by_node mod int (length nodes))"
proof -
  let ?ranked = "sorted_py (pod_count pods_by_node) True nodes"
  let ?e = "nat (total_pods nodes pods_by_node mod int (length nodes))"
  from compute_targets_unfold [OF assms, of pods_by_node]
  obtain targets where t: "compute_targets nodes pods_by_node = Inr targets"
    "\<forall>n\<in>set nodes. map_of targets n =
        Some (total_pods nodes pods_by_node div int (length nodes)
              + int (count_list (take ?e ?ranked) n))"
    by blast
  from assms have "0 < int (length nodes)" by simp
  then have "total_pods nodes pods_by_node mod int (length nodes) < int (length nodes)"
    by (rule pos_mod_bound)
  then have "length (take ?e ?ranked) = ?e"
    by (simp add: sorted_py_length)
  with t show ?thesis
    using rank_nodes_counts [of nodes pods_by_node]
      sorted_py_mset [of "pod_count pods_by_node" True nodes]
      sorted_py_descending [of "pod_count pods_by_node" nodes]
      sorted_py_stable [of "pod_count pods_by_node" _ True nodes]
    by blast
qed

lemma skewed_eval:
  "compute_targets [''a'', ''b'', ''c''] skewed_pods = Inr [(''a'', 2), (''b'', 1), (''c'', 1)]"
  "rank_nodes [''a'', ''b'', ''c''] (node_counts [''a'', ''b'', ''c''] skewed_pods)
     = Inr [''a'', ''c'', ''b'']"
  "total_pods [''a'', ''b'', ''c''] skewed_pods = 4"
  by (simp_all add: compute_targets_def node_counts_def dict_comp_def pods_on_def skewed_pods_def
      rank_nodes_def dict_index_def sorted_py_def Let_def total_pods_def)

theorem compute_targets_remainder_witness:
  "[''a'', ''b'', ''c''] \<noteq> [] \<and>
   total_pods [''a'', ''b'', ''c''] skewed_pods mod int (length [''a'', ''b'', ''c'']) = 1 \<and>
   compute_targets [''a'', ''b'', ''c''] skewed_pods = Inr [(''a'', 2), (''b'', 1), (''c'', 1)] \<and>
   rank_nodes [''a'', ''b'', ''c''] (node_counts [''a'', ''b'', ''c''] skewed_pods)
     = Inr [''a'', ''c'', ''b''] \<and>
   map_of [(''a'', 2), (''b'', 1), (''c'', 1)] ''a''
     = Some (1 + int (count_list (take 1 [''a'', ''c'', ''b'']) ''a'')) \<and>
   map_of [(''a'', 2), (''b'', 1), (''c'', 1)] ''c''
     = Some (1 + int (count_list (take 1 [''a'', ''c'', ''b'']) ''c''))"
proof -
  have h: "[''a'', ''b'', ''c''] \<noteq> []" by simp
  from compute_targets_remainder [OF h, of skewed_pods]
  show ?thesis by (simp add: skewed_eval)
qed

text \<open>
  C9 (amended). With no nodes, \<open>compute_targets\<close> fails with the \<open>ZeroDivisionError\<close>
  of \<open>divmod(total, len(nodes))\<close>.
\<close>

theorem compute_targets_empty_error:
  "compute_targets [] pods_by_node = Inl ZeroDivisionError"
  by (simp add: compute_targets_def)

text \<open>
  C9 as stated names an \<open>EmptyNodeSet\<close> error. The script defines no such exception and
  \<open>compute_targets\<close> does not test for an empty list: the error raised is the division by zero.
\<close>

theorem compute_targets_empty_counterexample:
  "compute_targets [] Map.empty = Inl ZeroDivisionError \<and>
   exception_name ZeroDivisionError \<noteq> ''EmptyNodeSet''"
  by (simp add: compute_targets_def)

section \<open>Properties of the eviction order\<close>

lemma daemonset_among_iff: "daemonset_among owners = (\<exists>owner\<in>set owners. kind owner = ''DaemonSet'')"
  by (induction owners) auto

text \<open>
  C3 (amended). \<open>_is_evictable\<close> returns false exactly when the pod has an owner
  reference of kind DaemonSet, or is annotated safe-to-evict = "false", or carries a config-mirror
  annotation with a non-empty value, or its phase is neither Pending nor Running. Hence it
  returns true for every Pending or Running pod without those markers.
\<close>

theorem is_evictable_iff:
  "(\<not> is_evictable pod) =
     ((\<exists>owner\<in>set (owners_of pod). kind owner = ''DaemonSet'') \<or>
      annotation pod ''cluster-autoscaler.kubernetes.io/safe-to-evict'' = Some ''false'' \<or>
      (\<exists>v. annotation pod ''kubernetes.io/config.mirror'' = Some v \<and> v \<noteq> []) \<or>
      phase pod \<notin> {Some ''Pending'', Some ''Running''})"
  by (auto simp: is_evictable_def is_managed_by_daemonset_def daemonset_among_iff truthy_def
      owners_of_def split: option.splits)

theorem is_evictable_iff_witness:
  "(\<exists>owner\<in>set (owners_of daemon_pod). kind owner = ''DaemonSet'') \<and> \<not> is_evictable daemon_pod"
proof -
  have h: "\<exists>owner\<in>set (owners_of daemon_pod). kind owner = ''DaemonSet''"
    by (simp add: owners_of_def daemon_pod_def running_pod_def)
  with is_evictable_iff [of daemon_pod] show ?thesis by blast
qed

text \<open>
  C3 as stated counts every pod that carries the config-mirror annotation. The script tests
  the truth value of \<open>annotations.get("kubernetes.io/config.mirror")\<close>, which is false for
  an empty string: a Running pod whose mirror annotation is present and empty is evictable.
\<close>

theorem is_evictable_empty_mirror_counterexample:
  "annotation empty_mirror_pod ''kubernetes.io/config.mirror'' \<noteq> None \<and>
   is_evictable empty_mirror_pod"
  by (simp add: is_evictable_def annotation_def empty_mirror_pod_def running_pod_def truthy_def
      is_managed_by_daemonset_def owners_of_def)

lemma pyfloat_le_simps:
  "Float a \<le> Float b \<longleftrightarrow> a \<le> b"
  "\<not> Float a \<le> MinusInf"
  "MinusInf \<le> x"
  "x \<le> PlusInf"
  by (cases x; simp add: less_eq_pyfloat_def)+

lemma candidates_key_mono:
  assumes "i \<le> j" and "j < length (candidates_of pods)"
  shows "pod_sort_key (candidates_of pods ! i) \<le> pod_sort_key (candidates_of pods ! j)"
proof -
  have "sorted (map pod_sort_key (candidates_of pods))"
    unfolding candidates_of_def by (rule sorted_py_ascending)
  from sorted_nth_mono [OF this, of i j] assms show ?thesis by simp
qed

lemma candidates_before:
  assumes "i < length (candidates_of pods)" and "j < length (candidates_of pods)"
    and "\<not> pod_sort_key (candidates_of pods ! j) \<le> pod_sort_key (candidates_of pods ! i)"
  shows "i < j"
proof (rule ccontr)
  assume "\<not> i < j"
  then have "j \<le> i" by simp
  from candidates_key_mono [OF this assms(1)] assms(3) show False by simp
qed

text \<open>
  C4. The candidates of a node are the evictable pods sorted ascending by
  \<open>(priority, -start timestamp)\<close>: a candidate with a strictly lower priority stands before
  every candidate with a higher one, and of two candidates with the same priority and known
  start times the one that started later stands before the other.
\<close>

theorem candidates_order:
  "mset (candidates_of pods) = mset (filter is_evictable pods) \<and>
   sorted (map pod_sort_key (candidates_of pods)) \<and>
   (\<forall>i j. i < length (candidates_of pods) \<and> j < length (candidates_of pods) \<and>
      effective_priority (candidates_of pods ! i) < effective_priority (candidates_of pods ! j)
      \<longrightarrow> i < j) \<and>
   (\<forall>i j a b. i < length (candidates_of pods) \<and> j < length (candidates_of pods) \<and>
      effective_priority (candidates_of pods ! i) = effective_priority (candidates_of pods ! j) \<and>
      start_ts (candidates_of pods ! i) = Float a \<and> start_ts (candidates_of pods ! j) = Float b \<and>
      b < a
      \<longrightarrow> i < j)"
proof (intro conjI allI impI)
  show "mset (candidates_of pods) = mset (filter is_evictable pods)"
    by (simp add: candidates_of_def sorted_py_mset)
  show "sorted (map pod_sort_key (candidates_of pods))"
    unfolding candidates_of_def by (rule sorted_py_ascending)
next
  fix i j
  assume "i < length (candidates_of pods) \<and> j < length (candidates_of pods) \<and>
      effective_priority (candidates_of pods ! i) < effective_priority (candidates_of pods ! j)"
  then show "i < j"
    by (intro candidates_before [of i pods j]) (auto simp: pod_sort_key_def)
next
  fix i j a b
  assume "i < length (candidates_of pods) \<and> j < length (candidates_of pods) \<and>
      effective_priority (candidates_of pods ! i) = effective_priority (candidates_of pods ! j) \<and>
      start_ts (candidates_of pods ! i) = Float a \<and> start_ts (candidates_of pods ! j) = Float b \<and>
      b < a"
  then show "i < j"
    by (intro candidates_before [of i pods j]) (auto simp: pod_sort_key_def pyfloat_le_simps)
qed

text \<open>
  C5 (amended). A candidate with no start time is ordered first among the candidates of the
  same priority: it stands before every candidate of that priority that has a start time.
\<close>

theorem candidates_missing_start_first:
  "\<forall>i j. i < length (candidates_of pods) \<and> j < length (candidates_of pods) \<and>
      effective_priority (candidates_of pods ! i) = effective_priority (candidates_of pods ! j) \<and>
      start_time (candidates_of pods ! i) = None \<and> start_time (candidates_of pods ! j) \<noteq> None
      \<longrightarrow> i < j"
proof (intro allI impI)
  fix i j
  assume a: "i < length (candidates_of pods) \<and> j < length (candidates_of pods) \<and>
      effective_priority (candidates_of pods ! i) = effective_priority (candidates_of pods ! j) \<and>
      start_time (candidates_of pods ! i) = None \<and> start_time (candidates_of pods ! j) \<noteq> None"
  then obtain b where "start_ts (candidates_of pods ! j) = Float b"
    by (auto simp: start_ts_def)
  moreover from a have "start_ts (candidates_of pods ! i) = PlusInf"
    by (simp add: start_ts_def)
  ultimately show "i < j" using a
    by (intro candidates_before [of i pods j]) (auto simp: pod_sort_key_def pyfloat_le_simps)
qed



lemma priority_pods_eval:
  "candidates_of priority_pods =
     [running_pod ''p1'' (Some 1) (Some noon), running_pod ''p2'' (Some 2) (Some noon),
      running_pod ''p3'' (Some 3) (Some noon)]"
  by (simp add: candidates_of_def priority_pods_def sorted_py_def is_evictable_def truthy_def
      annotation_def is_managed_by_daemonset_def owners_of_def running_pod_def pod_sort_key_def
      effective_priority_def start_ts_def)

lemma age_keys:
  "pod_sort_key (running_pod ''new'' None (Some later)) = (0, Float (- 1700003600))"
  "pod_sort_key (running_pod ''old'' None (Some noon)) = (0, Float (- 1700000000))"
  by (simp_all add: running_pod_def pod_sort_key_def effective_priority_def start_ts_def
      timestamp_def noon_def later_def)

lemma age_evictable:
  "is_evictable (running_pod n p s)"
  by (simp add: is_evictable_def truthy_def annotation_def is_managed_by_daemonset_def
      owners_of_def running_pod_def)

lemma age_pods_eval:
  "candidates_of age_pods =
     [running_pod ''new'' None (Some later), running_pod ''old'' None (Some noon)]"
  by (simp add: candidates_of_def age_pods_def sorted_py_def age_evictable age_keys pyfloat_le_simps)

lemma age_start_ts:
  "start_ts (running_pod ''new'' None (Some later)) = Float 1700003600"
  "start_ts (running_pod ''old'' None (Some noon)) = Float 1700000000"
  by (simp_all add: running_pod_def start_ts_def timestamp_def noon_def later_def)

theorem candidates_order_witness:
  "candidates_of priority_pods =
     [running_pod ''p1'' (Some 1) (Some noon), running_pod ''p2'' (Some 2) (Some noon),
      running_pod ''p3'' (Some 3) (Some noon)] \<and>
   0 < length (candidates_of priority_pods) \<and> 2 < length (candidates_of priority_pods) \<and>
   effective_priority (candidates_of priority_pods ! 0)
     < effective_priority (candidates_of priority_pods ! 2) \<and>
   sorted (map pod_sort_key (candidates_of priority_pods)) \<and>
   candidates_of age_pods =
     [running_pod ''new'' None (Some later), running_pod ''old'' None (Some noon)] \<and>
   start_ts (candidates_of age_pods ! 0) = Float 1700003600 \<and>
   start_ts (candidates_of age_pods ! 1) = Float 1700000000"
proof -
  have "effective_priority (running_pod ''p1'' (Some 1) (Some noon))
        < effective_priority (running_pod ''p3'' (Some 3) (Some noon))"
    by (simp add: effective_priority_def running_pod_def)
  with candidates_order [of priority_pods] show ?thesis
    by (simp add: priority_pods_eval age_pods_eval age_start_ts)
qed

lemma unstarted_pods_eval:
  "candidates_of unstarted_pods =
     [running_pod ''unstarted'' None None, running_pod ''old'' None (Some noon)]"
  by (simp add: candidates_of_def unstarted_pods_def sorted_py_def is_evictable_def truthy_def
      annotation_def is_managed_by_daemonset_def owners_of_def running_pod_def pod_sort_key_def
      effective_priority_def start_ts_def less_eq_prod_def less_eq_pyfloat_def less_pyfloat_def)

theorem candidates_missing_start_first_witness:
  "candidates_of unstarted_pods =
     [running_pod ''unstarted'' None None, running_pod ''old'' None (Some noon)] \<and>
   start_time (candidates_of unstarted_pods ! 0) = None \<and>
   start_time (candidates_of unstarted_pods ! 1) \<noteq> None \<and>
   effective_priority (candidates_of unstarted_pods ! 0)
     = effective_priority (candidates_of unstarted_pods ! 1)"
  using candidates_missing_start_first [of unstarted_pods]
  by (simp add: unstarted_pods_eval effective_priority_def running_pod_def)

text \<open>
  C5 as stated puts a pod with no start time last among the pods of its priority. Its key is
  \<open>(priority, -inf)\<close>, the least of that priority: of two Running pods without priority,
  the one with no start time is ordered before the one that has a start time.
\<close>

theorem candidates_missing_start_counterexample:
  "candidates_of unstarted_pods =
     [running_pod ''unstarted'' None None, running_pod ''old'' None (Some noon)] \<and>
   start_time (running_pod ''unstarted'' None None) = None \<and>
   start_time (running_pod ''old'' None (Some noon)) \<noteq> None \<and>
   effective_priority (running_pod ''unstarted'' None None)
     = effective_priority (running_pod ''old'' None (Some noon))"
  by (simp add: unstarted_pods_eval effective_priority_def running_pod_def)

section \<open>Properties of plan\_evictions\<close>

lemma get_items_in_range:
  "\<forall>i\<in>set idxs. i < length xs \<Longrightarrow> get_items xs idxs = Inr (map ((!) xs) idxs)"
  by (induction idxs) auto

lemma get_items_upt: "n \<le> length xs \<Longrightarrow> get_items xs [0..<n] = Inr (take n xs)"
  using get_items_in_range [of "[0..<n]" xs] by (simp add: map_nth_upt_take)

lemma plan_node_defined:
  assumes "map_of targets node = Some target"
  shows "plan_node pods_by_node targets node =
           (shortage_for pods_by_node target node, Inr (entries_for pods_by_node target node))"
proof -
  let ?cs = "candidates_of (pods_on pods_by_node node)"
  let ?overload = "pod_count pods_by_node node - target"
  consider "?overload \<le> 0" | "0 < ?overload" "int (length ?cs) < ?overload"
    | "0 < ?overload" "?overload \<le> int (length ?cs)" by linarith
  then show ?thesis
  proof cases
    case 1
    then show ?thesis
      using assms
      by (simp add: plan_node_def dict_index_def shortage_for_def entries_for_def pod_count_def
          Let_def)
  next
    case 2
    then have "take (nat ?overload) ?cs = ?cs" by simp
    moreover have "get_items ?cs [0..<length ?cs] = Inr ?cs"
      using get_items_upt [of "length ?cs" ?cs] by simp
    ultimately show ?thesis
      using assms 2
      by (simp add: plan_node_def dict_index_def shortage_for_def entries_for_def pod_count_def
          Let_def)
  next
    case 3
    then have "nat ?overload \<le> length ?cs" by simp
    from get_items_upt [OF this] show ?thesis
      using assms 3
      by (simp add: plan_node_def dict_index_def shortage_for_def entries_for_def pod_count_def
          Let_def)
  qed
qed

lemma plan_loop_defined:
  assumes "\<forall>node\<in>set nodes. map_of targets node \<noteq> None"
  shows "plan_loop pods_by_node targets nodes out plan =
           (out @ concat (map (\<lambda>n. shortage_for pods_by_node (the (map_of targets n)) n) nodes),
            Inr (plan @ concat (map (\<lambda>n. entries_for pods_by_node (the (map_of targets n)) n) nodes)))"
  using assms
proof (induction nodes arbitrary: out plan)
  case Nil
  then show ?case by simp
next
  case (Cons node rest)
  then obtain target where t: "map_of targets node = Some target" by auto
  from Cons.prems have "\<forall>n\<in>set rest. map_of targets n \<noteq> None" by simp
  from Cons.IH [OF this] show ?case
    by (simp add: plan_node_defined [OF t] t)
qed

lemma filter_concat_distinct:
  assumes "distinct xs" and "x \<in> set xs" and "\<And>y e. e \<in> set (f y) \<Longrightarrow> fst e = y"
  shows "filter (\<lambda>e. fst e = x) (concat (map f xs)) = f x"
  using assms(1,2)
proof (induction xs)
  case Nil
  then show ?case by simp
next
  case (Cons y ys)
  have own: "filter (\<lambda>e. fst e = y) (f y) = f y"
    using assms(3) by (simp add: filter_id_conv)
  have other: "filter (\<lambda>e. fst e = x) (f y) = []" if "x \<noteq> y"
    using assms(3) that by (auto simp: filter_empty_conv)
  have none: "filter (\<lambda>e. fst e = y) (concat (map f ys)) = []" if "y \<notin> set ys"
    using assms(3) that by (auto simp: filter_empty_conv)
  show ?case
  proof (cases "x = y")
    case True
    with Cons.prems own none show ?thesis by simp
  next
    case False
    with Cons other show ?thesis by simp
  qed
qed

lemma entries_for_node: "e \<in> set (entries_for pods_by_node target node) \<Longrightarrow> fst e = node"
  by (auto simp: entries_for_def)

lemma length_candidates: "length (candidates_of pods) = length (filter is_evictable pods)"
  by (simp add: candidates_of_def sorted_py_length)

text \<open>
  C2. The nodes are a node set given in order (no name occurs twice) and the targets are
  defined on every node, as those of \<open>compute_targets\<close> are. Then \<open>plan_evictions\<close>
  returns a plan in which every node has at most as many entries as it has evictable
  candidates. Whenever a node has fewer candidates than its overload (pod count minus
  target), the shortage warning for that node is printed and the node has exactly as many
  entries as candidates.
\<close>

theorem plan_evictions_capped:
  assumes "distinct nodes" and "set nodes \<subseteq> fst ` set targets"
  shows "\<exists>out plan.
           plan_evictions nodes pods_by_node targets = (out, Inr plan) \<and>
           (\<forall>node\<in>set nodes. \<forall>target. map_of targets node = Some target \<longrightarrow>
              length (filter (\<lambda>entry. fst entry = node) plan)
                \<le> length (filter is_evictable (pods_on pods_by_node node)) \<and>
              (int (length (filter is_evictable (pods_on pods_by_node node)))
                 < pod_count pods_by_node node - target \<longrightarrow>
               ShortageWarning node (pod_count pods_by_node node - target)
                 (int (length (filter is_evictable (pods_on pods_by_node node))))
                 (pod_count pods_by_node node - target
                    - int (length (filter is_evictable (pods_on pods_by_node node))))
                 \<in> set out \<and>
               length (filter (\<lambda>entry. fst entry = node) plan)
                 = length (filter is_evictable (pods_on pods_by_node node))))"
proof -
  let ?W = "\<lambda>n. shortage_for pods_by_node (the (map_of targets n)) n"
  let ?E = "\<lambda>n. entries_for pods_by_node (the (map_of targets n)) n"
  have defined: "\<forall>node\<in>set nodes. map_of targets node \<noteq> None"
    using assms(2) by (auto simp: map_of_eq_None_iff)
  have run: "plan_evictions nodes pods_by_node targets
             = (concat (map ?W nodes), Inr (concat (map ?E nodes)))"
    unfolding plan_evictions_def using plan_loop_defined [OF defined, of pods_by_node "[]" "[]"]
    by simp
  have "length (filter (\<lambda>entry. fst entry = node) (concat (map ?E nodes)))
          \<le> length (filter is_evictable (pods_on pods_by_node node)) \<and>
        (int (length (filter is_evictable (pods_on pods_by_node node)))
           < pod_count pods_by_node node - target \<longrightarrow>
         ShortageWarning node (pod_count pods_by_node node - target)
           (int (length (filter is_evictable (pods_on pods_by_node node))))
           (pod_count pods_by_node node - target
              - int (length (filter is_evictable (pods_on pods_by_node node))))
           \<in> set (concat (map ?W nodes)) \<and>
         length (filter (\<lambda>entry. fst entry = node) (concat (map ?E nodes)))
           = length (filter is_evictable (pods_on pods_by_node node)))"
    if node: "node \<in> set nodes" and target: "map_of targets node = Some target" for node target
  proof -
    have own: "filter (\<lambda>entry. fst entry = node) (concat (map ?E nodes))
               = entries_for pods_by_node target node"
      using filter_concat_distinct [OF assms(1) node, of ?E] target
      by (simp add: entries_for_node)
    have len: "length (entries_for pods_by_node target node)
               = min (length (filter is_evictable (pods_on pods_by_node node)))
                   (nat (pod_count pods_by_node node - target))"
      by (simp add: entries_for_def length_candidates)
    have warn: "ShortageWarning node (pod_count pods_by_node node - target)
           (int (length (filter is_evictable (pods_on pods_by_node node))))
           (pod_count pods_by_node node - target
              - int (length (filter is_evictable (pods_on pods_by_node node))))
           \<in> set (concat (map ?W nodes))"
      if "int (length (filter is_evictable (pods_on pods_by_node node)))
           < pod_count pods_by_node node - target"
    proof -
      from that have "ShortageWarning node (pod_count pods_by_node node - target)
           (int (length (filter is_evictable (pods_on pods_by_node node))))
           (pod_count pods_by_node node - target
              - int (length (filter is_evictable (pods_on pods_by_node node))))
           \<in> set (?W node)"
        using target by (simp add: shortage_for_def length_candidates Let_def)
      with node show ?thesis by auto
    qed
    show ?thesis
      using warn by (simp add: own len)
  qed
  with run show ?thesis by blast
qed

lemma sample_pod_evictable: "is_evictable sample_pod"
  by (simp add: is_evictable_def sample_pod_def truthy_def annotation_def
      is_managed_by_daemonset_def owners_of_def)

lemma daemon_pod_not_evictable: "\<not> is_evictable daemon_pod"
  by (simp add: is_evictable_def daemon_pod_def running_pod_def truthy_def annotation_def
      is_managed_by_daemonset_def owners_of_def)

lemma short_pods_eval:
  "plan_evictions [''a'', ''b''] short_pods two_targets
     = ([ShortageWarning ''a'' 2 1 1], Inr [(''a'', sample_pod)])"
  by (simp add: plan_evictions_def plan_node_def dict_index_def two_targets_def pods_on_def
      short_pods_def candidates_of_def sorted_py_def sample_pod_evictable
      daemon_pod_not_evictable Let_def)

lemma short_pods_facts:
  "map_of two_targets ''a'' = Some 1"
  "length (filter is_evictable (pods_on short_pods ''a'')) = 1"
  "pod_count short_pods ''a'' - 1 = 2"
  by (simp_all add: two_targets_def pods_on_def short_pods_def pod_count_def
      sample_pod_evictable daemon_pod_not_evictable)

theorem plan_evictions_capped_witness:
  "distinct [''a'', ''b''] \<and> set [''a'', ''b''] \<subseteq> fst ` set two_targets \<and>
   plan_evictions [''a'', ''b''] short_pods two_targets
     = ([ShortageWarning ''a'' 2 1 1], Inr [(''a'', sample_pod)]) \<and>
   map_of two_targets ''a'' = Some 1 \<and>
   length (filter is_evictable (pods_on short_pods ''a'')) = 1 \<and>
   pod_count short_pods ''a'' - 1 = 2"
proof -
  have h1: "distinct [''a'', ''b'']" by simp
  have h2: "set [''a'', ''b''] \<subseteq> fst ` set two_targets" by (simp add: two_targets_def)
  from plan_evictions_capped [OF h1 h2, of short_pods] h1 h2 show ?thesis
    by (simp add: short_pods_eval short_pods_facts)
qed

section \<open>Properties of execute\_plan\<close>

lemma execute_loop_trace:
  assumes caught: "\<forall>history call exc. api history call \<noteq> Raised exc"
  shows "\<exists>new. calls (execute_loop api False grace max_ev plan st) = calls st @ new \<and>
     length new \<le> length plan \<and>
     map fst new = map (\<lambda>entry. eviction_call_of grace (snd entry)) (take (length new) plan) \<and>
     performed (execute_loop api False grace max_ev plan st) = performed st + int (successes new) \<and>
     printed (execute_loop api False grace max_ev plan st)
       = printed st @ errors_of new @ (if length new < length plan then [CapReachedWarning] else []) \<and>
     (length new < length plan \<longrightarrow>
        (\<exists>m. max_ev = Some m \<and> m \<le> performed (execute_loop api False grace max_ev plan st))) \<and>
     (\<forall>m. max_ev = Some m \<longrightarrow>
        performed (execute_loop api False grace max_ev plan st) \<le> max m (performed st)) \<and>
     (\<forall>i<length new. snd (new ! i) = api (calls st @ take i new) (fst (new ! i))) \<and>
     uncaught (execute_loop api False grace max_ev plan st) = uncaught st"
proof (induction plan arbitrary: st)
  case Nil
  show ?case by (rule exI [of _ "[]"]) (simp add: successes_def)
next
  case (Cons entry rest)
  obtain node pod where entry: "entry = (node, pod)" by (cases entry)
  let ?call = "eviction_call_of grace pod"
  show ?case
  proof (cases "case max_ev of None \<Rightarrow> False | Some m \<Rightarrow> m \<le> performed st")
    case True
    then obtain m where m: "max_ev = Some m" "m \<le> performed st"
      by (auto split: option.splits)
    show ?thesis
      by (rule exI [of _ "[]"]) (simp add: entry m successes_def)
  next
    case False
    let ?res = "api (calls st) ?call"
    define st' where "st' = (case ?res of
        Evicted \<Rightarrow> st\<lparr>performed := performed st + 1, calls := calls st @ [(?call, Evicted)]\<rparr>
      | ApiException exc \<Rightarrow> st\<lparr>calls := calls st @ [(?call, ApiException exc)],
          printed := printed st @ [EvictionError (namespace pod) (name pod) exc]\<rparr>
      | Raised exc \<Rightarrow> st)"
    have res: "\<forall>exc. ?res \<noteq> Raised exc"
      using caught by simp
    have step: "execute_loop api False grace max_ev (entry # rest) st
                = execute_loop api False grace max_ev rest st'"
      using False res by (cases ?res) (simp_all add: entry st'_def Let_def)
    have st'_calls: "calls st' = calls st @ [(?call, ?res)]"
      using res by (cases ?res) (simp_all add: st'_def)
    have st'_performed: "performed st' = performed st + int (successes [(?call, ?res)])"
      using res by (cases ?res) (simp_all add: st'_def successes_def)
    have st'_printed: "printed st' = printed st @ errors_of [(?call, ?res)]"
      using res by (cases ?res) (simp_all add: st'_def eviction_call_of_def)
    have st'_uncaught: "uncaught st' = uncaught st"
      by (cases ?res) (simp_all add: st'_def)
    have st'_bound: "performed st' \<le> max m (performed st)" if "max_ev = Some m" for m
      using False that by (simp add: st'_def split: api_result.splits)
    from Cons.IH [of st'] obtain new where new:
      "calls (execute_loop api False grace max_ev rest st') = calls st' @ new"
      "length new \<le> length rest"
      "map fst new = map (\<lambda>entry. eviction_call_of grace (snd entry)) (take (length new) rest)"
      "performed (execute_loop api False grace max_ev rest st') = performed st' + int (successes new)"
      "printed (execute_loop api False grace max_ev rest st')
         = printed st' @ errors_of new @ (if length new < length rest then [CapReachedWarning] else [])"
      "length new < length rest \<longrightarrow>
         (\<exists>m. max_ev = Some m \<and> m \<le> performed (execute_loop api False grace max_ev rest st'))"
      "\<forall>m. max_ev = Some m \<longrightarrow>
         performed (execute_loop api False grace max_ev rest st') \<le> max m (performed st')"
      "\<forall>i<length new. snd (new ! i) = api (calls st' @ take i new) (fst (new ! i))"
      "uncaught (execute_loop api False grace max_ev rest st') = uncaught st'"
      by blast
    have err_app: "errors_of ((?call, ?res) # new) = errors_of [(?call, ?res)] @ errors_of new"
      by (cases ?res) simp_all
    have succ_app: "successes ((?call, ?res) # new) = successes [(?call, ?res)] + successes new"
      by (simp add: successes_def)
    have bound: "\<forall>m. max_ev = Some m \<longrightarrow>
         performed (execute_loop api False grace max_ev rest st') \<le> max m (performed st)"
    proof (intro allI impI)
      fix m assume m: "max_ev = Some m"
      with new(7) have "performed (execute_loop api False grace max_ev rest st') \<le> max m (performed st')"
        by simp
      with st'_bound [OF m] show "performed (execute_loop api False grace max_ev rest st') \<le> max m (performed st)"
        by simp
    qed
    have answers: "\<forall>i<length ((?call, ?res) # new).
        snd (((?call, ?res) # new) ! i)
          = api (calls st @ take i ((?call, ?res) # new)) (fst (((?call, ?res) # new) ! i))"
    proof (intro allI impI)
      fix i assume i: "i < length ((?call, ?res) # new)"
      show "snd (((?call, ?res) # new) ! i)
          = api (calls st @ take i ((?call, ?res) # new)) (fst (((?call, ?res) # new) ! i))"
      proof (cases i)
        case 0
        then show ?thesis by simp
      next
        case (Suc j)
        with i new(8) show ?thesis by (simp add: st'_calls)
      qed
    qed
    have "calls (execute_loop api False grace max_ev rest st') = calls st @ (?call, ?res) # new"
      using new(1) by (simp add: st'_calls)
    moreover have "length ((?call, ?res) # new) \<le> length (entry # rest)"
      using new(2) by simp
    moreover have "map fst ((?call, ?res) # new)
        = map (\<lambda>entry. eviction_call_of grace (snd entry)) (take (length ((?call, ?res) # new)) (entry # rest))"
      using new(3) by (simp add: entry)
    moreover have "performed (execute_loop api False grace max_ev rest st')
        = performed st + int (successes ((?call, ?res) # new))"
      using new(4) by (simp add: st'_performed succ_app)
    moreover have "printed (execute_loop api False grace max_ev rest st')
        = printed st @ errors_of ((?call, ?res) # new)
          @ (if length ((?call, ?res) # new) < length (entry # rest) then [CapReachedWarning] else [])"
      using new(5) by (simp add: st'_printed err_app del: errors_of.simps)
    moreover have "length ((?call, ?res) # new) < length (entry # rest) \<longrightarrow>
        (\<exists>m. max_ev = Some m \<and> m \<le> performed (execute_loop api False grace max_ev rest st'))"
      using new(6) by simp
    moreover have "uncaught (execute_loop api False grace max_ev rest st') = uncaught st"
      using new(9) st'_uncaught by simp
    ultimately show ?thesis
      unfolding step using bound answers by blast
  qed
qed

lemma execute_loop_count:
  "\<exists>new. calls (execute_loop api False grace max_ev plan st) = calls st @ new \<and>
     length new \<le> length plan \<and>
     performed (execute_loop api False grace max_ev plan st) = performed st + int (successes new) \<and>
     (\<forall>m. max_ev = Some m \<longrightarrow>
        performed (execute_loop api False grace max_ev plan st) \<le> max m (performed st))"
proof (induction plan arbitrary: st)
  case Nil
  show ?case by (rule exI [of _ "[]"]) (simp add: successes_def)
next
  case (Cons entry rest)
  obtain node pod where entry: "entry = (node, pod)" by (cases entry)
  let ?call = "eviction_call_of grace pod"
  let ?res = "api (calls st) ?call"
  show ?case
  proof (cases "case max_ev of None \<Rightarrow> False | Some m \<Rightarrow> m \<le> performed st")
    case True
    then obtain m where m: "max_ev = Some m" "m \<le> performed st"
      by (auto split: option.splits)
    show ?thesis
      by (rule exI [of _ "[]"]) (simp add: entry m successes_def)
  next
    case False
    have after: "\<exists>new. calls (execute_loop api False grace max_ev rest st') = calls st @ new \<and>
         length new \<le> length (entry # rest) \<and>
         performed (execute_loop api False grace max_ev rest st')
           = performed st + int (successes new) \<and>
         (\<forall>m. max_ev = Some m \<longrightarrow>
            performed (execute_loop api False grace max_ev rest st') \<le> max m (performed st))"
      if c: "calls st' = calls st @ [(?call, ?res)]"
        and p: "performed st' = performed st + int (successes [(?call, ?res)])"
        and b: "\<forall>m. max_ev = Some m \<longrightarrow> performed st' \<le> max m (performed st)"
      for st'
    proof -
      from Cons.IH [of st'] obtain new where new:
        "calls (execute_loop api False grace max_ev rest st') = calls st' @ new"
        "length new \<le> length rest"
        "performed (execute_loop api False grace max_ev rest st') = performed st' + int (successes new)"
        "\<forall>m. max_ev = Some m \<longrightarrow>
           performed (execute_loop api False grace max_ev rest st') \<le> max m (performed st')"
        by blast
      have "calls (execute_loop api False grace max_ev rest st') = calls st @ (?call, ?res) # new"
        using new(1) c by simp
      moreover have "length ((?call, ?res) # new) \<le> length (entry # rest)"
        using new(2) by simp
      moreover have "performed (execute_loop api False grace max_ev rest st')
          = performed st + int (successes ((?call, ?res) # new))"
        using new(3) p by (simp add: successes_def)
      moreover have "\<forall>m. max_ev = Some m \<longrightarrow>
          performed (execute_loop api False grace max_ev rest st') \<le> max m (performed st)"
        using new(4) b by fastforce
      ultimately show ?thesis by blast
    qed
    show ?thesis
    proof (cases ?res)
      case Evicted
      let ?st = "st\<lparr>performed := performed st + 1, calls := calls st @ [(?call, Evicted)]\<rparr>"
      have step: "execute_loop api False grace max_ev (entry # rest) st
                  = execute_loop api False grace max_ev rest ?st"
        using False Evicted by (simp add: entry Let_def)
      have "\<forall>m. max_ev = Some m \<longrightarrow> performed ?st \<le> max m (performed st)"
        using False by auto
      with after [of ?st] Evicted show ?thesis
        unfolding step by (simp add: successes_def)
    next
      case (ApiException exc)
      let ?st = "st\<lparr>calls := calls st @ [(?call, ApiException exc)],
          printed := printed st @ [EvictionError (namespace pod) (name pod) exc]\<rparr>"
      have step: "execute_loop api False grace max_ev (entry # rest) st
                  = execute_loop api False grace max_ev rest ?st"
        using False ApiException by (simp add: entry Let_def)
      from after [of ?st] ApiException show ?thesis
        unfolding step by (simp add: successes_def)
    next
      case (Raised exc)
      have step: "execute_loop api False grace max_ev (entry # rest) st
                  = st\<lparr>calls := calls st @ [(?call, Raised exc)], uncaught := Some exc\<rparr>"
        using False Raised by (simp add: entry Let_def)
      show ?thesis
        unfolding step by (rule exI [of _ "[(?call, Raised exc)]"]) (simp add: successes_def)
    qed
  qed
qed

lemma execute_loop_dry_run:
  "calls (execute_loop api True grace max_ev plan st) = calls st \<and>
   performed (execute_loop api True grace max_ev plan st) = performed st"
  by (induction plan arbitrary: st) (auto split: option.splits)


lemma execute_plan_loop:
  "execute_plan plan api dry_run grace max_ev = execute_loop api dry_run grace max_ev plan fresh_run"
  by (cases plan) (simp_all add: execute_plan_def fresh_run_def)


lemma execute_plan_trace:
  assumes "\<forall>history call exc. api history call \<noteq> Raised exc"
  shows "\<exists>new. calls (execute_plan plan api False grace max_ev) = new \<and>
     length new \<le> length plan \<and>
     map fst new = map (\<lambda>entry. eviction_call_of grace (snd entry)) (take (length new) plan) \<and>
     performed (execute_plan plan api False grace max_ev) = int (successes new) \<and>
     printed (execute_plan plan api False grace max_ev)
       = errors_of new @ (if length new < length plan then [CapReachedWarning] else []) \<and>
     (length new < length plan \<longrightarrow>
        (\<exists>m. max_ev = Some m \<and> m \<le> performed (execute_plan plan api False grace max_ev))) \<and>
     (\<forall>m. max_ev = Some m \<longrightarrow> performed (execute_plan plan api False grace max_ev) \<le> max m 0) \<and>
     (\<forall>i<length new. snd (new ! i) = api (take i new) (fst (new ! i))) \<and>
     uncaught (execute_plan plan api False grace max_ev) = None"
proof -
  have fresh: "calls fresh_run = []" "performed fresh_run = 0" "printed fresh_run = []"
    "uncaught fresh_run = None"
    by (simp_all add: fresh_run_def)
  from execute_loop_trace [OF assms, of grace max_ev plan fresh_run]
  show ?thesis
    unfolding execute_plan_loop fresh append_Nil add_0 by blast
qed

lemma execute_plan_count:
  "length (calls (execute_plan plan api False grace max_ev)) \<le> length plan \<and>
   performed (execute_plan plan api False grace max_ev)
     = int (successes (calls (execute_plan plan api False grace max_ev))) \<and>
   (\<forall>m. max_ev = Some m \<longrightarrow> performed (execute_plan plan api False grace max_ev) \<le> max m 0)"
proof -
  have fresh: "calls fresh_run = []" "performed fresh_run = 0"
    by (simp_all add: fresh_run_def)
  from execute_loop_count [of api grace max_ev plan fresh_run]
  show ?thesis
    unfolding execute_plan_loop fresh append_Nil add_0 by auto
qed


lemma all_evicted:
  assumes "\<forall>i<length new. snd (new ! i) = Evicted"
  shows "new = map (\<lambda>c. (c, Evicted)) (map fst new)"
  using assms by (intro nth_equalityI) (auto simp: prod_eq_iff)

lemma successes_all: "successes (map (\<lambda>c. (c, Evicted)) cs) = length cs"
  by (simp add: successes_def)

lemma errors_of_all: "errors_of (map (\<lambda>c. (c, Evicted)) cs) = []"
  by (induction cs) simp_all

text \<open>
  C6 (amended). For a plan of size \<open>n\<close>, a cap \<open>k\<close> with \<open>0 \<le> k < n\<close> and an API that
  never fails, \<open>execute_plan\<close> with \<open>dry_run = False\<close> calls the API for the first \<open>k\<close>
  entries only, returns \<open>k\<close> (no exception is left uncaught) and prints the cap warning.
\<close>

theorem execute_plan_cap:
  assumes "0 \<le> k" and "k < int (length plan)" and "\<forall>history call. api history call = Evicted"
  shows "performed (execute_plan plan api False grace_period (Some k)) = k \<and>
     calls (execute_plan plan api False grace_period (Some k))
       = map (\<lambda>entry. (eviction_call_of grace_period (snd entry), Evicted)) (take (nat k) plan) \<and>
     length (calls (execute_plan plan api False grace_period (Some k))) = nat k \<and>
     printed (execute_plan plan api False grace_period (Some k)) = [CapReachedWarning] \<and>
     uncaught (execute_plan plan api False grace_period (Some k)) = None"
proof -
  let ?r = "execute_plan plan api False grace_period (Some k)"
  have caught: "\<forall>history call exc. api history call \<noteq> Raised exc"
    using assms(3) by simp
  from execute_plan_trace [OF caught, of plan grace_period "Some k"]
  have t: "length (calls ?r) \<le> length plan"
    "map fst (calls ?r)
       = map (\<lambda>entry. eviction_call_of grace_period (snd entry)) (take (length (calls ?r)) plan)"
    "performed ?r = int (successes (calls ?r))"
    "printed ?r = errors_of (calls ?r)
       @ (if length (calls ?r) < length plan then [CapReachedWarning] else [])"
    "length (calls ?r) < length plan \<longrightarrow> k \<le> performed ?r"
    "performed ?r \<le> max k 0"
    "\<forall>i<length (calls ?r). snd (calls ?r ! i) = api (take i (calls ?r)) (fst (calls ?r ! i))"
    "uncaught ?r = None"
    by auto
  from t(7) assms(3) have "\<forall>i<length (calls ?r). snd (calls ?r ! i) = Evicted" by simp
  from all_evicted [OF this]
  have shape: "calls ?r = map (\<lambda>c. (c, Evicted)) (map fst (calls ?r))" .
  have succ: "successes (calls ?r) = length (calls ?r)"
    using successes_all [of "map fst (calls ?r)"] shape by simp
  have errs: "errors_of (calls ?r) = []"
    using errors_of_all [of "map fst (calls ?r)"] shape by simp
  have perf: "performed ?r = int (length (calls ?r))" using t(3) succ by simp
  have "performed ?r \<le> k" using t(6) assms(1) by simp
  with perf assms(2) have short: "length (calls ?r) < length plan" by simp
  with t(5) \<open>performed ?r \<le> k\<close> have k: "performed ?r = k" by simp
  with perf have len: "length (calls ?r) = nat k" by simp
  have "calls ?r = map (\<lambda>c. (c, Evicted))
      (map (\<lambda>entry. eviction_call_of grace_period (snd entry)) (take (nat k) plan))"
    using shape t(2) len by simp
  then have "calls ?r
      = map (\<lambda>entry. (eviction_call_of grace_period (snd entry), Evicted)) (take (nat k) plan)"
    by (simp add: o_def)
  moreover have "printed ?r = [CapReachedWarning]"
    using t(4) short errs by simp
  ultimately show ?thesis using k len t(8) by simp
qed

lemma retry_plan_eval:
  "performed (execute_plan retry_plan flaky_api False None (Some 1)) = 1"
  "length (calls (execute_plan retry_plan flaky_api False None (Some 1))) = 2"
  "successes (calls (execute_plan retry_plan flaky_api False None (Some 1))) = 1"
  by (simp_all add: execute_plan_def retry_plan_def flaky_api_def eviction_call_of_def
      create_eviction_body_def running_pod_def Let_def successes_def)

text \<open>
  C10 (amended). Whatever the plan, the cap, the dry-run flag and the answers of the API,
  the counter (the count returned, when the run returns) is at most the plan length and, with a cap \<open>m\<close>, at most
  \<open>max m 0\<close>: at most a non-negative cap, and 0 for a negative one. The count is the
  number of successful calls, so a failed call does not count toward the cap: the run of
  \<open>retry_plan\<close> with cap 1, whose first call fails, makes two calls.
\<close>

theorem execute_plan_count_bounds:
  assumes "r = execute_plan plan api dry_run grace_period max_evictions"
  shows "performed r \<le> int (length plan) \<and>
     (\<forall>m. max_evictions = Some m \<longrightarrow> performed r \<le> max m 0) \<and>
     performed r = int (successes (calls r)) \<and>
     length (calls r) \<le> length plan \<and>
     1 < length (calls (execute_plan retry_plan flaky_api False None (Some 1)))"
proof (cases dry_run)
  case True
  have fresh: "calls fresh_run = []" "performed fresh_run = 0"
    by (simp_all add: fresh_run_def)
  from execute_loop_dry_run [of api grace_period max_evictions plan fresh_run]
  have "calls r = []" "performed r = 0"
    unfolding assms execute_plan_loop fresh using True by simp_all
  then show ?thesis by (simp add: successes_def retry_plan_eval)
next
  case False
  then have wet: "dry_run = False" by simp
  from execute_plan_count [of plan api grace_period max_evictions]
  have t: "length (calls r) \<le> length plan" "performed r = int (successes (calls r))"
    "\<forall>m. max_evictions = Some m \<longrightarrow> performed r \<le> max m 0"
    unfolding assms wet by blast+
  have "successes (calls r) \<le> length (calls r)" by (simp add: successes_def)
  with t show ?thesis by (simp add: retry_plan_eval)
qed


lemma three_plan_length: "length three_plan = 3"
  by (simp add: three_plan_def)




lemma three_plan_cap_eval:
  "performed (execute_plan three_plan always_evicted False None (Some 2)) = 2"
  "length (calls (execute_plan three_plan always_evicted False None (Some 2))) = 2"
  "printed (execute_plan three_plan always_evicted False None (Some 2)) = [CapReachedWarning]"
  by (simp_all add: execute_plan_def three_plan_def always_evicted_def Let_def)

theorem execute_plan_cap_witness:
  "(0::int) \<le> 2 \<and> 2 < int (length three_plan) \<and>
   (\<forall>history call. always_evicted history call = Evicted) \<and>
   performed (execute_plan three_plan always_evicted False None (Some 2)) = 2 \<and>
   length (calls (execute_plan three_plan always_evicted False None (Some 2))) = 2 \<and>
   printed (execute_plan three_plan always_evicted False None (Some 2)) = [CapReachedWarning]"
proof -
  have h1: "(0::int) \<le> 2" by simp
  have h2: "2 < int (length three_plan)" by (simp add: three_plan_length)
  have h3: "\<forall>history call. always_evicted history call = Evicted"
    by (simp add: always_evicted_def)
  from execute_plan_cap [OF h1 h2 h3, of None] h1 h2 h3 show ?thesis
    by (simp add: three_plan_cap_eval)
qed

text \<open>
  C6 as stated covers every \<open>k < n\<close>. With \<open>--max-evictions -1\<close> the test
  \<open>performed >= max_evictions\<close> holds at once: no call is made and 0 is returned, not \<open>k\<close>.
\<close>

theorem execute_plan_negative_cap_counterexample:
  "(-1::int) < int (length [(''a'', sample_pod)]) \<and>
   (\<forall>history call. always_evicted history call = Evicted) \<and>
   performed (execute_plan [(''a'', sample_pod)] always_evicted False None (Some (-1))) = 0 \<and>
   calls (execute_plan [(''a'', sample_pod)] always_evicted False None (Some (-1))) = [] \<and>
   performed (execute_plan [(''a'', sample_pod)] always_evicted False None (Some (-1))) \<noteq> -1"
  by (simp add: execute_plan_def always_evicted_def)

theorem execute_plan_count_bounds_witness:
  "performed (execute_plan retry_plan flaky_api False None (Some 1)) = 1 \<and>
   performed (execute_plan retry_plan flaky_api False None (Some 1)) \<le> max 1 0 \<and>
   successes (calls (execute_plan retry_plan flaky_api False None (Some 1))) = 1 \<and>
   length (calls (execute_plan retry_plan flaky_api False None (Some 1))) = 2 \<and>
   (1::int) < int (length (calls (execute_plan retry_plan flaky_api False None (Some 1))))"
  using execute_plan_count_bounds [OF refl, of retry_plan flaky_api False None "Some 1"]
  by (simp add: retry_plan_eval)

text \<open>
  C10 as stated covers every value of the cap. With the cap \<open>-1\<close> the count returned is 0,
  which exceeds the cap.
\<close>

theorem execute_plan_count_negative_cap_counterexample:
  "performed (execute_plan [(''a'', sample_pod)] flaky_api False None (Some (-1))) = 0 \<and>
   \<not> performed (execute_plan [(''a'', sample_pod)] flaky_api False None (Some (-1))) \<le> -1"
  by (simp add: execute_plan_def)

end
